theory Spec2Isabelle
  imports Main "HOL-Library.Word"
begin

unbundle bit_operations_syntax

section \<open>The machine: the global of \<open>main.c\<close>, the I/O registers it touches, and a trace\<close>

type_synonym uint8_t = "8 word"
type_synonym uint16_t = "16 word"

text \<open>
  The six ATtiny85 I/O registers that \<open>main.c\<close> reads or writes. Each of them is
  eight bits wide.
\<close>

datatype reg = DDRB | PORTB | TCCR0A | TCCR0B | OCR0A | OCR0B

text \<open>
  What the firmware does to the outside world, in program order: a store to an I/O
  register (with the value stored) and a call of \<open>_delay_ms\<close> (with its argument,
  in milliseconds).
\<close>

datatype event = Store reg uint8_t | Delay_ms nat

text \<open>
  \<open>randreg\<close> is the global \<open>uint16_t randreg\<close> (line 81); \<open>io\<close> holds the current
  value of every I/O register; \<open>trace\<close> is the list of events so far, oldest first.
\<close>

record mcu =
  randreg :: uint16_t
  io :: "reg \<Rightarrow> uint8_t"
  trace :: "event list"

text \<open>
  The state in which \<open>main\<close> is entered. \<open>randreg\<close> is declared without an
  initialiser (line 81), so as an object of static storage duration it starts at 0.
  The I/O registers are at their reset value 0 and nothing has happened yet.
\<close>

definition power_on :: mcu where
  "power_on = \<lparr>randreg = 0, io = (\<lambda>_. 0), trace = []\<rparr>"

subsection \<open>Register access and the delay primitive\<close>

text \<open>An assignment \<open>REG = v\<close>.\<close>

definition store :: "reg \<Rightarrow> uint8_t \<Rightarrow> mcu \<Rightarrow> mcu" where
  "store r v m = m\<lparr>io := (io m)(r := v), trace := trace m @ [Store r v]\<rparr>"

text \<open>\<open>REG |= v\<close> and \<open>REG &= ~v\<close>: read, modify, write back.\<close>

definition set_bits :: "reg \<Rightarrow> uint8_t \<Rightarrow> mcu \<Rightarrow> mcu" where
  "set_bits r v m = store r (io m r OR v) m"

definition clear_bits :: "reg \<Rightarrow> uint8_t \<Rightarrow> mcu \<Rightarrow> mcu" where
  "clear_bits r v m = store r (io m r AND NOT v) m"

text \<open>\<open>_delay_ms(n)\<close> of \<open>util/delay.h\<close>: a busy wait, visible only as time passing.\<close>

definition delay_ms :: "nat \<Rightarrow> mcu \<Rightarrow> mcu" where
  "delay_ms n m = m\<lparr>trace := trace m @ [Delay_ms n]\<rparr>"

text \<open>The macro \<open>_BV(bit)\<close>, that is \<open>1 << bit\<close>.\<close>

definition BV :: "nat \<Rightarrow> uint8_t" where
  "BV n = push_bit n 1"

text \<open>
  Modelled from the spec: the bit numbers below are declared in \<open>avr/io.h\<close>, which is
  not part of the repository. The spec only says that each channel has its own output
  control and its own compare register; the numbers are those of the ATtiny85 that the
  header comment of \<open>main.c\<close> names (PB0 and PB1 are pins 0 and 1 of port B, as the
  comments on lines 52 and 58 say).
\<close>

definition PB0 :: nat where "PB0 = 0"
definition PB1 :: nat where "PB1 = 1"
definition DDB0 :: nat where "DDB0 = 0"
definition DDB1 :: nat where "DDB1 = 1"
definition COM0A1 :: nat where "COM0A1 = 7"
definition COM0B1 :: nat where "COM0B1 = 5"
definition WGM00 :: nat where "WGM00 = 0"
definition WGM01 :: nat where "WGM01 = 1"
definition CS00 :: nat where "CS00 = 0"
definition CS02 :: nat where "CS02 = 2"

text \<open>Lines 65 to 68: the helper macros that switch a lamp on and off.\<close>

definition LAMP_0_ON :: "mcu \<Rightarrow> mcu" where
  "LAMP_0_ON = set_bits PORTB (BV PB0)"

definition LAMP_0_OFF :: "mcu \<Rightarrow> mcu" where
  "LAMP_0_OFF = clear_bits PORTB (BV PB0)"

definition LAMP_1_ON :: "mcu \<Rightarrow> mcu" where
  "LAMP_1_ON = set_bits PORTB (BV PB1)"

definition LAMP_1_OFF :: "mcu \<Rightarrow> mcu" where
  "LAMP_1_OFF = clear_bits PORTB (BV PB1)"

text \<open>Line 73. The macro is used both as a 16-bit and as an 8-bit value.\<close>

definition LAMP_MIN_PWM :: "'a::len word" where
  "LAMP_MIN_PWM = 50"

section \<open>The pseudo random number generator (lines 92 to 108)\<close>

text \<open>
  Lines 94 and 100 to 103: the local \<open>newbit\<close> starts at 0 and is set or toggled by
  four tests of \<open>randreg\<close> against a mask.
\<close>

definition newbit_of :: "uint16_t \<Rightarrow> uint16_t" where
  "newbit_of r =
    (let newbit = 0;
         newbit = (if r AND 0x8000 \<noteq> 0 then 1 else newbit);
         newbit = (if r AND 0x4000 \<noteq> 0 then newbit XOR 1 else newbit);
         newbit = (if r AND 0x1000 \<noteq> 0 then newbit XOR 1 else newbit);
         newbit = (if r AND 0x0008 \<noteq> 0 then newbit XOR 1 else newbit)
     in newbit)"

text \<open>
  The whole function: the guard of lines 96 to 99, the feedback bit, the shift and
  add of line 105 in 16-bit arithmetic, and the return of the global's new value.
\<close>

definition pseudorandom16 :: "mcu \<Rightarrow> uint16_t \<times> mcu" where
  "pseudorandom16 m =
    (let m = (if randreg m = 0 then m\<lparr>randreg := 1\<rparr> else m);
         newbit = newbit_of (randreg m);
         m = m\<lparr>randreg := push_bit 1 (randreg m) + newbit\<rparr>
     in (randreg m, m))"

text \<open>\<open>n\<close> calls of \<open>pseudorandom16\<close> in a row: the values returned and the final state.\<close>

fun draws :: "nat \<Rightarrow> mcu \<Rightarrow> uint16_t list \<times> mcu" where
  "draws 0 m = ([], m)"
| "draws (Suc n) m =
    (let (d, m) = pseudorandom16 m;
         (ds, m) = draws n m
     in (d # ds, m))"

section \<open>The duty cycle (lines 116 to 127)\<close>

definition get_duty_cycle :: "mcu \<Rightarrow> uint8_t \<times> mcu" where
  "get_duty_cycle m =
    (let (lamp_duty_cycle, m) = pseudorandom16 m;
         lamp_duty_cycle = lamp_duty_cycle mod 255;
         lamp_duty_cycle =
           (if lamp_duty_cycle < LAMP_MIN_PWM then LAMP_MIN_PWM else lamp_duty_cycle)
     in (ucast lamp_duty_cycle, m))"

section \<open>The entry point (lines 133 to 183)\<close>

text \<open>Lines 136 to 162: everything \<open>main\<close> does before its loop, statement by statement.\<close>

definition startup :: "mcu \<Rightarrow> mcu" where
  "startup m = foldl (\<lambda>m statement. statement m) m
    [delay_ms 100,
     set_bits DDRB (BV DDB0),
     set_bits DDRB (BV DDB1),
     LAMP_0_ON,
     delay_ms 750,
     LAMP_0_OFF,
     LAMP_1_ON,
     delay_ms 750,
     LAMP_1_OFF,
     set_bits TCCR0A (BV COM0A1),
     set_bits TCCR0A (BV COM0B1),
     set_bits TCCR0A (BV WGM00),
     set_bits TCCR0A (BV WGM01),
     set_bits TCCR0B (BV CS00),
     set_bits TCCR0B (BV CS02),
     store OCR0A LAMP_MIN_PWM,
     store OCR0B LAMP_MIN_PWM]"

text \<open>
  Lines 175 to 178: the \<open>for\<close> loop. The counter \<open>i\<close> is a \<open>uint8_t\<close> and wraps
  around at 256, while the bound is a \<open>uint16_t\<close>; for a bound above 255 the loop
  would never end, so the function is partial and \<open>None\<close> stands for not returning.
\<close>

partial_function (option) delay_loop :: "uint8_t \<Rightarrow> uint16_t \<Rightarrow> mcu \<Rightarrow> mcu option" where
  "delay_loop i random_cycle_delay m =
    (if ucast i < random_cycle_delay
     then delay_loop (i + 1) random_cycle_delay (delay_ms 1 m)
     else Some m)"

declare delay_loop.simps [code]

text \<open>Lines 168 to 178: one pass through the body of \<open>while(1)\<close>.\<close>

definition loop_body :: "mcu \<Rightarrow> mcu option" where
  "loop_body m =
    (let (duty, m) = get_duty_cycle m;
         m = store OCR0A duty m;
         (duty, m) = get_duty_cycle m;
         m = store OCR0B duty m;
         (random_cycle_delay, m) = pseudorandom16 m;
         random_cycle_delay = random_cycle_delay mod 50
     in delay_loop 0 random_cycle_delay m)"

text \<open>
  \<open>while(1)\<close> never ends, so \<open>main\<close> never returns. What can be observed is the
  state after the first \<open>n\<close> passes through the body.
\<close>

fun main_loop :: "nat \<Rightarrow> mcu \<Rightarrow> mcu option" where
  "main_loop 0 m = Some m"
| "main_loop (Suc n) m =
    (case loop_body m of None \<Rightarrow> None | Some m' \<Rightarrow> main_loop n m')"

definition main :: "nat \<Rightarrow> mcu option" where
  "main n = main_loop n (startup power_on)"

section \<open>The feedback bit and one step of the register\<close>

text \<open>
  Each mask of lines 100 to 103 has one bit set, so each test reads one bit of the
  register, and the four toggles add up to the parity of bits 15, 14, 12 and 3.
\<close>

lemma newbit_of_bits:
  "newbit_of r = of_bool ((bit r 15 \<noteq> bit r 14) \<noteq> (bit r 12 \<noteq> bit r 3))"
  using bit_iff_and_push_bit_not_eq_0[of r 15] bit_iff_and_push_bit_not_eq_0[of r 14]
    bit_iff_and_push_bit_not_eq_0[of r 12] bit_iff_and_push_bit_not_eq_0[of r 3]
  by (auto simp add: newbit_of_def Let_def)

lemma newbit_of_cases: "newbit_of r = 0 \<or> newbit_of r = 1"
  by (cases "(bit r 15 \<noteq> bit r 14) \<noteq> (bit r 12 \<noteq> bit r 3)") (simp_all add: newbit_of_bits)

lemma newbit_of_xor:
  "newbit_of r = of_bool (bit r 15) XOR of_bool (bit r 14) XOR of_bool (bit r 12) XOR of_bool (bit r 3)"
  by (simp add: newbit_of_bits)

text \<open>
  In 16 bits, doubling gives 0 only for 0 and for 0x8000.
\<close>

lemma double_eq_0:
  fixes s :: uint16_t
  assumes "2 * s = 0"
  shows "s = 0 \<or> s = 0x8000"
proof -
  have b: "unat s < 65536" using unsigned_less[of s, where 'a=nat] by simp
  from assms have "unat (2 * s) = 0" by simp
  then have "(2 * unat s) mod 65536 = 0" by (simp add: unat_word_ariths)
  then obtain q where q: "2 * unat s = 65536 * q" by (auto simp: mod_eq_0_iff_dvd elim: dvdE)
  with b have "q = 0 \<or> q = 1" by linarith
  with q have "unat s = 0 \<or> unat s = 32768" by auto
  then have "unat s = unat (0 :: uint16_t) \<or> unat s = unat (0x8000 :: uint16_t)" by simp
  then show ?thesis by (simp only: word_unat_eq_iff[symmetric])
qed

lemma pseudorandom16_eq:
  "pseudorandom16 m =
    (let s = (if randreg m = 0 then 1 else randreg m) in
      (push_bit 1 s + newbit_of s, m\<lparr>randreg := push_bit 1 s + newbit_of s\<rparr>))"
  by (simp add: pseudorandom16_def Let_def)

text \<open>
  From a non-zero register the shift and add gives neither 0 nor the old value:
  an odd result is not 0, and \<open>2 * s = 0\<close> leaves only \<open>s = 0x8000\<close>, whose feedback
  bit is 1; \<open>2 * s + b = s\<close> means \<open>s = - b\<close>, and the feedback bit of 0xFFFF is 0.
\<close>

lemma step_nonzero: "s \<noteq> 0 \<Longrightarrow> push_bit 1 s + newbit_of s \<noteq> 0"
proof
  assume s: "s \<noteq> 0" and z: "push_bit 1 s + newbit_of s = 0"
  from newbit_of_cases[of s] show False
  proof
    assume n: "newbit_of s = 0"
    with z have "2 * s = 0" by (simp add: push_bit_eq_mult mult.commute)
    with s have "s = 0x8000" using double_eq_0 by blast
    then have "newbit_of s = 1" by (simp add: newbit_of_def)
    with n show False by simp
  next
    assume n: "newbit_of s = 1"
    with z have "2 * s + 1 = 0" by (simp add: push_bit_eq_mult mult.commute)
    then have "even (2 * s + 1)" by simp
    then show False by simp
  qed
qed

lemma step_moves: "s \<noteq> 0 \<Longrightarrow> push_bit 1 s + newbit_of s \<noteq> s"
proof
  assume s: "s \<noteq> 0" and z: "push_bit 1 s + newbit_of s = s"
  then have e: "s + newbit_of s = 0" by (simp add: push_bit_eq_mult)
  from newbit_of_cases[of s] show False
  proof
    assume n: "newbit_of s = 0"
    with e s show False by simp
  next
    assume n: "newbit_of s = 1"
    with e have "s = - 1" by (simp add: eq_neg_iff_add_eq_0)
    then have "s = 0xFFFF" by simp
    then have "newbit_of s = 0" by (simp add: newbit_of_def)
    with n show False by simp
  qed
qed

lemma pseudorandom16_snd: "snd (pseudorandom16 m) = m\<lparr>randreg := fst (pseudorandom16 m)\<rparr>"
  by (simp add: pseudorandom16_def Let_def)

lemma pseudorandom16_fst_randreg:
  "randreg m1 = randreg m2 \<Longrightarrow> fst (pseudorandom16 m1) = fst (pseudorandom16 m2)"
  by (simp add: pseudorandom16_def Let_def)

lemma pseudorandom16_fst_nonzero: "fst (pseudorandom16 m) \<noteq> 0"
  using step_nonzero[of "randreg m"] step_nonzero[of 1]
  by (simp add: pseudorandom16_eq Let_def del: push_bit_eq_mult)

lemma pseudorandom16_fst_moves: "fst (pseudorandom16 m) \<noteq> randreg m"
proof (cases "randreg m = 0")
  case True
  then show ?thesis using pseudorandom16_fst_nonzero[of m] by simp
next
  case False
  then show ?thesis using step_moves[of "randreg m"] by (simp add: pseudorandom16_eq Let_def)
qed

section \<open>Repeated draws\<close>

lemma draws_Suc:
  "draws (Suc n) m =
    (fst (pseudorandom16 m) # fst (draws n (snd (pseudorandom16 m))),
     snd (draws n (snd (pseudorandom16 m))))"
  by (simp add: split_beta)

lemma draws_randreg:
  "randreg m1 = randreg m2 \<Longrightarrow>
   fst (draws n m1) = fst (draws n m2) \<and>
   randreg (snd (draws n m1)) = randreg (snd (draws n m2))"
proof (induction n arbitrary: m1 m2)
  case 0
  then show ?case by simp
next
  case (Suc n)
  have d: "fst (pseudorandom16 m1) = fst (pseudorandom16 m2)"
    using Suc.prems by (rule pseudorandom16_fst_randreg)
  then have "randreg (snd (pseudorandom16 m1)) = randreg (snd (pseudorandom16 m2))"
    by (simp add: pseudorandom16_snd)
  from Suc.IH[OF this] d show ?case by (simp only: draws_Suc fst_conv snd_conv)
qed

lemma draws_frame: "snd (draws n m) = m\<lparr>randreg := randreg (snd (draws n m))\<rparr>"
proof (induction n arbitrary: m)
  case 0
  then show ?case by simp
next
  case (Suc n)
  have "snd (draws (Suc n) m) = snd (draws n (snd (pseudorandom16 m)))"
    by (simp only: draws_Suc snd_conv)
  also have "\<dots> = (snd (pseudorandom16 m))\<lparr>randreg := randreg (snd (draws n (snd (pseudorandom16 m))))\<rparr>"
    by (rule Suc.IH)
  also have "\<dots> = m\<lparr>randreg := randreg (snd (draws n (snd (pseudorandom16 m))))\<rparr>"
    by (subst pseudorandom16_snd) simp
  finally show ?case by (simp only: draws_Suc snd_conv)
qed

lemma draws_nonzero:
  "randreg (snd (draws (Suc n) m)) \<noteq> 0 \<and> 0 \<notin> set (fst (draws n m))"
proof (induction n arbitrary: m)
  case 0
  then show ?case using pseudorandom16_fst_nonzero[of m] by (simp add: split_beta pseudorandom16_snd)
next
  case (Suc n)
  from Suc.IH[of "snd (pseudorandom16 m)"] pseudorandom16_fst_nonzero[of m]
  show ?case by (simp only: draws_Suc[of "Suc n"] draws_Suc[of n m] fst_conv snd_conv) simp
qed

lemma draws_3:
  "draws 3 m =
    (let D1 = fst (pseudorandom16 m);
         D2 = fst (pseudorandom16 (m\<lparr>randreg := D1\<rparr>));
         D3 = fst (pseudorandom16 (m\<lparr>randreg := D2\<rparr>))
     in ([D1, D2, D3], m\<lparr>randreg := D3\<rparr>))"
  by (simp add: numeral_3_eq_3 split_beta pseudorandom16_snd Let_def)

lemma draws_add:
  "draws (a + b) m =
    (fst (draws a m) @ fst (draws b (snd (draws a m))), snd (draws b (snd (draws a m))))"
proof (induction a arbitrary: m)
  case 0
  then show ?case by simp
next
  case (Suc a)
  show ?case by (simp only: add_Suc draws_Suc Suc.IH fst_conv snd_conv append_Cons)
qed

section \<open>The duty cycle and the delay loop\<close>

lemma get_duty_cycle_eq:
  "get_duty_cycle m =
    (ucast (max 50 (fst (pseudorandom16 m) mod 255)), snd (pseudorandom16 m))"
  by (auto simp add: get_duty_cycle_def LAMP_MIN_PWM_def Let_def split_beta max_def)

lemma unat_duty:
  "unat (ucast (max 50 ((D::uint16_t) mod 255)) :: uint8_t) = max 50 (unat D mod 255)"
proof -
  have m: "unat (D mod 255) = unat D mod 255" by (simp add: unat_mod)
  have a: "unat (max 50 (D mod 255)) = max 50 (unat D mod 255)"
    by (simp add: max_def word_le_nat_alt m)
  have "unat D mod 255 < 255" by simp
  then have "max 50 (unat D mod 255) < 2 ^ LENGTH(8)" by simp
  then have "take_bit LENGTH(8) (max 50 (unat D mod 255)) = max 50 (unat D mod 255)"
    by (rule take_bit_nat_eq_self)
  then show ?thesis by (simp only: unsigned_ucast_eq a)
qed

lemma unat_delay: "unat ((D::uint16_t) mod 50) = unat D mod 50"
  by (simp add: unat_mod)

lemma unat_ucast_8_16: "unat (ucast (i::uint8_t) :: uint16_t) = unat i"
proof -
  have "unat i < 2 ^ 8" using unsigned_less[of i, where 'a=nat] by simp
  then have "unat i < 2 ^ 16" by simp
  then show ?thesis by (simp add: unsigned_ucast_eq take_bit_nat_eq_self)
qed

lemma ucast_less_iff: "(ucast (i::uint8_t) < (d::uint16_t)) = (unat i < unat d)"
  by (simp add: word_less_nat_alt unat_ucast_8_16)

text \<open>
  The \<open>for\<close> loop returns whenever its bound fits the 8-bit counter, after one
  \<open>_delay_ms(1)\<close> for every value of the counter below the bound.
\<close>

lemma delay_loop_returns:
  "unat d \<le> 255 \<Longrightarrow> unat i \<le> unat d \<Longrightarrow> k = unat d - unat i \<Longrightarrow>
   delay_loop i d m = Some (m\<lparr>trace := trace m @ replicate k (Delay_ms 1)\<rparr>)"
proof (induction k arbitrary: i m)
  case 0
  then have "\<not> ucast i < d" by (simp add: ucast_less_iff)
  then have "delay_loop i d m = Some m" by (subst delay_loop.simps) simp
  then show ?case by simp
next
  case (Suc k)
  then have lt: "unat i < unat d" by simp
  with Suc.prems have "unat i + unat (1::uint8_t) < 2 ^ LENGTH(8)" by simp
  then have u: "unat (i + 1) = unat i + 1" by (simp only: unat_add_lem[THEN iffD1] unat_1)
  have k: "k = unat d - unat (i + 1)" using Suc.prems u by simp
  have le: "unat (i + 1) \<le> unat d" using lt u by simp
  have "delay_loop (i + 1) d (delay_ms 1 m) =
    Some ((delay_ms 1 m)\<lparr>trace := trace (delay_ms 1 m) @ replicate k (Delay_ms 1)\<rparr>)"
    using Suc.prems(1) le k by (rule Suc.IH)
  moreover have "delay_loop i d m = delay_loop (i + 1) d (delay_ms 1 m)"
    using lt by (subst delay_loop.simps) (simp add: ucast_less_iff)
  ultimately show ?case by (simp add: delay_ms_def)
qed

text \<open>
  One pass through the body of \<open>while(1)\<close> always returns. It draws three times:
  the first draw gives the duty cycle stored to \<open>OCR0A\<close>, the second the one stored
  to \<open>OCR0B\<close>, the third the number of one millisecond waits.
\<close>

lemma loop_body_eq:
  "loop_body m =
    (let D1 = fst (pseudorandom16 m);
         D2 = fst (pseudorandom16 (m\<lparr>randreg := D1\<rparr>));
         D3 = fst (pseudorandom16 (m\<lparr>randreg := D2\<rparr>));
         a = ucast (max 50 (D1 mod 255));
         b = ucast (max 50 (D2 mod 255))
     in Some (m\<lparr>randreg := D3,
                io := (io m)(OCR0A := a, OCR0B := b),
                trace := trace m @ [Store OCR0A a, Store OCR0B b] @
                         replicate (unat D3 mod 50) (Delay_ms 1)\<rparr>))"
proof -
  define D1 where "D1 = fst (pseudorandom16 m)"
  define D2 where "D2 = fst (pseudorandom16 (m\<lparr>randreg := D1\<rparr>))"
  define D3 where "D3 = fst (pseudorandom16 (m\<lparr>randreg := D2\<rparr>))"
  define a :: uint8_t where "a = ucast (max 50 (D1 mod 255))"
  define b :: uint8_t where "b = ucast (max 50 (D2 mod 255))"
  define m1 where "m1 = store OCR0A a (m\<lparr>randreg := D1\<rparr>)"
  define m2 where "m2 = store OCR0B b (m1\<lparr>randreg := D2\<rparr>)"
  define m3 where "m3 = m2\<lparr>randreg := D3\<rparr>"
  have g1: "get_duty_cycle m = (a, m\<lparr>randreg := D1\<rparr>)"
    by (simp add: get_duty_cycle_eq pseudorandom16_snd a_def D1_def)
  have r1: "fst (pseudorandom16 m1) = D2"
    unfolding D2_def by (rule pseudorandom16_fst_randreg) (simp add: m1_def store_def)
  have g2: "get_duty_cycle m1 = (b, m1\<lparr>randreg := D2\<rparr>)"
    by (simp add: get_duty_cycle_eq pseudorandom16_snd b_def r1)
  have r2: "fst (pseudorandom16 m2) = D3"
    unfolding D3_def by (rule pseudorandom16_fst_randreg) (simp add: m2_def store_def)
  have g3: "pseudorandom16 m2 = (D3, m3)"
    by (simp add: prod_eq_iff pseudorandom16_snd r2 m3_def)
  have "unat (D3 mod 50) \<le> 255" by (simp add: unat_delay)
  then have d: "delay_loop 0 (D3 mod 50) m3 =
      Some (m3\<lparr>trace := trace m3 @ replicate (unat D3 mod 50) (Delay_ms 1)\<rparr>)"
    by (intro delay_loop_returns) (simp_all add: unat_delay)
  have "loop_body m = delay_loop 0 (D3 mod 50) m3"
    by (simp add: loop_body_def g1 g2 g3 m1_def[symmetric] m2_def[symmetric])
  with d show ?thesis
    by (simp add: Let_def D1_def[symmetric] D2_def[symmetric] D3_def[symmetric]
        a_def[symmetric] b_def[symmetric] m3_def m2_def m1_def store_def)
qed

lemma loop_body_draws:
  "\<exists>m'. loop_body m = Some m' \<and> randreg m' = randreg (snd (draws 3 m))"
  by (simp add: loop_body_eq draws_3 Let_def)

lemma main_loop_draws:
  "\<exists>m'. main_loop n m = Some m' \<and> randreg m' = randreg (snd (draws (3 * n) m))"
proof (induction n arbitrary: m)
  case 0
  then show ?case by simp
next
  case (Suc n)
  obtain m1 where m1: "loop_body m = Some m1" "randreg m1 = randreg (snd (draws 3 m))"
    using loop_body_draws by blast
  obtain m' where m': "main_loop n m1 = Some m'" "randreg m' = randreg (snd (draws (3 * n) m1))"
    using Suc.IH by blast
  have "randreg (snd (draws (3 * n) m1)) = randreg (snd (draws (3 * n) (snd (draws 3 m))))"
    using draws_randreg[OF m1(2)] by simp
  also have "\<dots> = randreg (snd (draws (3 + 3 * n) m))"
    by (simp only: draws_add snd_conv)
  finally have "randreg m' = randreg (snd (draws (3 * Suc n) m))"
    using m'(2) by simp
  with m1 m' show ?case by simp
qed

lemma startup_randreg: "randreg (startup m) = randreg m"
  by (simp add: startup_def store_def set_bits_def clear_bits_def delay_ms_def
      LAMP_0_ON_def LAMP_0_OFF_def LAMP_1_ON_def LAMP_1_OFF_def)

section \<open>The generator\<close>

text \<open>
  C1: for every 16-bit state, one call of \<open>pseudorandom16\<close> takes the state after
  the zero guard, \<open>s\<close>, computes the feedback bit as the exclusive or of bits 15, 14,
  12 and 3 of \<open>s\<close>, stores \<open>(s << 1) + feedback\<close> modulo \<open>2 ^ 16\<close> as the new state
  and returns exactly that value, so the stored state and the value returned are the
  same after the call. Nothing but \<open>randreg\<close> changes.
\<close>

theorem pseudorandom16_step:
  "let s = (if randreg m = 0 then 1 else randreg m);
       feedback = of_bool (bit s 15) XOR of_bool (bit s 14) XOR
                  of_bool (bit s 12) XOR of_bool (bit s 3);
       new = push_bit 1 s + feedback
   in newbit_of s = feedback \<and>
      pseudorandom16 m = (new, m\<lparr>randreg := new\<rparr>) \<and>
      unat new = (2 * unat s + unat feedback) mod 2 ^ 16 \<and>
      randreg (snd (pseudorandom16 m)) = fst (pseudorandom16 m)"
proof -
  have u: "unat (push_bit 1 s + f) = (2 * unat s + unat f) mod 2 ^ 16" for s f :: uint16_t
    by (simp add: unat_word_ariths push_bit_eq_mult mod_add_left_eq mult.commute)
  show ?thesis
    unfolding Let_def
    by (simp only: u newbit_of_xor[symmetric] pseudorandom16_eq Let_def fst_conv snd_conv) simp
qed

text \<open>
  C5: from state 0x8000 one draw has feedback bit 1 and new state 0x0001; from state
  0x4000 one draw has feedback bit 1 and new state 0x8001; from state 0x0000 the guard
  makes the effective input 0x0001, the feedback bit is 0 and the new state is 0x0002.
  In each case the value returned is the new state.
\<close>

theorem pseudorandom16_test_vectors:
  "newbit_of 0x8000 = 1 \<and>
   pseudorandom16 (m\<lparr>randreg := 0x8000\<rparr>) = (0x0001, m\<lparr>randreg := 0x0001\<rparr>) \<and>
   newbit_of 0x4000 = 1 \<and>
   pseudorandom16 (m\<lparr>randreg := 0x4000\<rparr>) = (0x8001, m\<lparr>randreg := 0x8001\<rparr>) \<and>
   newbit_of 0x0001 = 0 \<and>
   pseudorandom16 (m\<lparr>randreg := 0x0000\<rparr>) = pseudorandom16 (m\<lparr>randreg := 0x0001\<rparr>) \<and>
   pseudorandom16 (m\<lparr>randreg := 0x0000\<rparr>) = (0x0002, m\<lparr>randreg := 0x0002\<rparr>)"
  by (simp add: pseudorandom16_def newbit_of_def)

text \<open>
  C3: when the state is 0 on entry, the draw replaces it with 1 before it computes the
  feedback bit: the call behaves exactly as a call from state 1, returns 2, which is
  not 0, and after any positive number of calls the state is not 0 either;
  no draw of the sequence is 0.
\<close>

theorem zero_guard:
  "randreg m = 0 \<Longrightarrow>
   pseudorandom16 m = pseudorandom16 (m\<lparr>randreg := 1\<rparr>) \<and>
   pseudorandom16 m = (2, m\<lparr>randreg := 2\<rparr>) \<and>
   fst (pseudorandom16 m) \<noteq> 0 \<and>
   (\<forall>n. randreg (snd (draws (Suc n) m)) \<noteq> 0 \<and> 0 \<notin> set (fst (draws n m)))"
proof -
  assume z: "randreg m = 0"
  then have "pseudorandom16 m = (2, m\<lparr>randreg := 2\<rparr>)"
    by (simp add: pseudorandom16_def newbit_of_def)
  moreover have "pseudorandom16 (m\<lparr>randreg := 1\<rparr>) = (2, m\<lparr>randreg := 2\<rparr>)"
    by (simp add: pseudorandom16_def newbit_of_def)
  ultimately show ?thesis using draws_nonzero by (simp del: draws.simps)
qed

text \<open>
  At power-on the state is 0: the first draw returns 2 and the state after three
  draws is not 0.
\<close>

theorem zero_guard_witness:
  "randreg power_on = 0 \<and>
   pseudorandom16 power_on = (2, power_on\<lparr>randreg := 2\<rparr>) \<and>
   randreg (snd (draws (Suc 2) power_on)) \<noteq> 0"
proof -
  have z: "randreg power_on = 0" by (simp add: power_on_def)
  from zero_guard[OF z] z show ?thesis by blast
qed

text \<open>
  C10: for every 16-bit starting state a single draw returns a non-zero value, and
  the stored state, which equals the value returned, is non-zero after the draw. This
  includes state 0, where the guard gives 2, and state 0x8000, where the shift
  overflows to 0 but the feedback bit is 1.
\<close>

theorem pseudorandom16_never_zero:
  "fst (pseudorandom16 m) \<noteq> 0 \<and>
   randreg (snd (pseudorandom16 m)) \<noteq> 0 \<and>
   randreg (snd (pseudorandom16 m)) = fst (pseudorandom16 m) \<and>
   fst (pseudorandom16 (m\<lparr>randreg := 0\<rparr>)) = 2 \<and>
   fst (pseudorandom16 (m\<lparr>randreg := 0x8000\<rparr>)) = 1"
proof -
  have "fst (pseudorandom16 (m\<lparr>randreg := 0\<rparr>)) = 2"
    by (simp add: pseudorandom16_def newbit_of_def)
  moreover have "fst (pseudorandom16 (m\<lparr>randreg := 0x8000\<rparr>)) = 1"
    by (simp add: pseudorandom16_def newbit_of_def)
  ultimately show ?thesis
    using pseudorandom16_fst_nonzero[of m] by (simp add: pseudorandom16_snd)
qed

text \<open>
  C9: the draws depend on nothing but the generator's state. Two runs that start
  with the same \<open>randreg\<close>, whatever the I/O registers hold and whatever happened
  before, return the same values draw for draw and end in the same generator state.
\<close>

theorem draws_deterministic:
  "randreg m1 = randreg m2 \<Longrightarrow>
   fst (draws n m1) = fst (draws n m2) \<and>
   randreg (snd (draws n m1)) = randreg (snd (draws n m2))"
  by (rule draws_randreg)

text \<open>
  Two machines with the state 0 of power-on, one of them after a wait and a store to
  an I/O register: both draw 2, 4, 8.
\<close>

theorem draws_deterministic_witness:
  "randreg power_on = randreg (store OCR0A 200 (delay_ms 7 power_on)) \<and>
   fst (draws 3 power_on) = [2, 4, 8] \<and>
   fst (draws 3 (store OCR0A 200 (delay_ms 7 power_on))) = [2, 4, 8]"
proof -
  have r: "randreg power_on = randreg (store OCR0A 200 (delay_ms 7 power_on))"
    by (simp add: store_def delay_ms_def)
  have "fst (draws 3 power_on) = [2, 4, 8]"
    by (simp add: draws_3 Let_def pseudorandom16_def newbit_of_def power_on_def)
  with r draws_deterministic[OF r, of 3] show ?thesis by simp
qed

section \<open>The duty cycle\<close>

text \<open>
  C2: for the 16-bit value \<open>D\<close> that the generator returns, \<open>get_duty_cycle\<close>
  returns \<open>max 50 (D mod 255)\<close>: never below 50, never above 254, and \<open>D mod 255\<close>
  itself whenever that is at least 50. The call leaves the machine as the draw left
  it.
\<close>

theorem get_duty_cycle_range:
  "let D = fst (pseudorandom16 m);
       duty = fst (get_duty_cycle m)
   in unat duty = max 50 (unat D mod 255) \<and>
      50 \<le> unat duty \<and>
      unat duty \<le> 254 \<and>
      (50 \<le> unat D mod 255 \<longrightarrow> unat duty = unat D mod 255) \<and>
      snd (get_duty_cycle m) = snd (pseudorandom16 m)"
proof -
  have "unat (fst (pseudorandom16 m)) mod 255 < 255" by simp
  then have "unat (fst (pseudorandom16 m)) mod 255 \<le> 254" by linarith
  then show ?thesis
    by (simp add: Let_def get_duty_cycle_eq unat_duty)
qed

text \<open>
  From state 0x4000 the draw is 0x8001, that is 32769, and \<open>32769 mod 255 = 129\<close>.
\<close>

theorem get_duty_cycle_range_witness:
  "50 \<le> unat (fst (pseudorandom16 (power_on\<lparr>randreg := 0x4000\<rparr>))) mod 255 \<and>
   unat (fst (get_duty_cycle (power_on\<lparr>randreg := 0x4000\<rparr>))) = 129"
  using get_duty_cycle_range[of "power_on\<lparr>randreg := 0x4000\<rparr>"]
  by (simp add: Let_def pseudorandom16_def newbit_of_def)

section \<open>One pass through the loop\<close>

text \<open>
  C6: in every pass the cycle delay is the third draw of the pass, a fresh 16-bit
  value \<open>D3\<close>, reduced modulo 50. The pass returns, and after the two stores to the
  compare registers it performs exactly \<open>D3 mod 50\<close> waits of one millisecond, a
  number below 50; when it is 0 there is no wait.
\<close>

theorem loop_body_delay:
  "\<exists>D1 D2 D3 m'.
     fst (draws 3 m) = [D1, D2, D3] \<and>
     loop_body m = Some m' \<and>
     randreg m' = D3 \<and>
     trace m' = trace m @ [Store OCR0A (io m' OCR0A), Store OCR0B (io m' OCR0B)] @
                replicate (unat (D3 mod 50)) (Delay_ms 1) \<and>
     unat (D3 mod 50) = unat D3 mod 50 \<and>
     unat (D3 mod 50) < 50"
  by (simp add: loop_body_eq draws_3 Let_def unat_delay)

text \<open>
  C7: within one pass the compare register of channel 0, \<open>OCR0A\<close>, is set from the
  first draw \<open>D1\<close> and that of channel 1, \<open>OCR0B\<close>, from the draw \<open>D2\<close> that follows
  it immediately, the draw made from state \<open>D1\<close>. The two draws are different calls,
  and their values differ as well, since a draw never returns the state it started
  from. The two stores are the first two events of the pass, in this order.
\<close>

theorem loop_body_channels:
  "\<exists>D1 D2 D3 m'.
     fst (draws 3 m) = [D1, D2, D3] \<and>
     loop_body m = Some m' \<and>
     D1 = fst (pseudorandom16 m) \<and>
     D2 = fst (pseudorandom16 (m\<lparr>randreg := D1\<rparr>)) \<and>
     D1 \<noteq> D2 \<and>
     io m' OCR0A = ucast (max 50 (D1 mod 255)) \<and>
     io m' OCR0B = ucast (max 50 (D2 mod 255)) \<and>
     io m' OCR0A = fst (get_duty_cycle m) \<and>
     io m' OCR0B = fst (get_duty_cycle (m\<lparr>randreg := D1\<rparr>)) \<and>
     take 2 (drop (length (trace m)) (trace m')) =
       [Store OCR0A (io m' OCR0A), Store OCR0B (io m' OCR0B)]"
proof -
  have "fst (pseudorandom16 (m\<lparr>randreg := fst (pseudorandom16 m)\<rparr>)) \<noteq> fst (pseudorandom16 m)"
    using pseudorandom16_fst_moves[of "m\<lparr>randreg := fst (pseudorandom16 m)\<rparr>"] by simp
  then show ?thesis
    by (simp add: loop_body_eq draws_3 Let_def get_duty_cycle_eq eq_commute)
qed

section \<open>Startup\<close>

text \<open>
  C8: before the loop, \<open>main\<close> performs in this order: a wait of 100 ms; two stores
  to \<open>DDRB\<close> that make both lamp pins outputs; lamp 0 on, a wait of 750 ms, lamp 0 off;
  lamp 1 on, a wait of 750 ms, lamp 1 off; four stores to \<open>TCCR0A\<close> and two to
  \<open>TCCR0B\<close> that configure the timer; and the stores of the floor value 50 to
  \<open>OCR0A\<close> and \<open>OCR0B\<close>. During the first window the bit of lamp 0 is set in
  \<open>PORTB\<close>, and the bit of lamp 1 is clear if it was clear on entry, as it is at
  power-on; between and after the windows both bits are clear; during the second
  window only the bit of lamp 1 is set. Both compare registers hold 50 when the loop
  begins, and the generator's state is untouched.
\<close>

theorem startup_sequence:
  "let ddr = io m DDRB; port = io m PORTB; tccr0a = io m TCCR0A; tccr0b = io m TCCR0B;
       ddr1 = ddr OR BV DDB0;
       ddr2 = ddr1 OR BV DDB1;
       port1 = port OR BV PB0;
       port2 = port1 AND NOT (BV PB0);
       port3 = port2 OR BV PB1;
       port4 = port3 AND NOT (BV PB1);
       a1 = tccr0a OR BV COM0A1;
       a2 = a1 OR BV COM0B1;
       a3 = a2 OR BV WGM00;
       a4 = a3 OR BV WGM01;
       b1 = tccr0b OR BV CS00;
       b2 = b1 OR BV CS02
   in trace (startup m) = trace m @
        [Delay_ms 100,
         Store DDRB ddr1, Store DDRB ddr2,
         Store PORTB port1, Delay_ms 750, Store PORTB port2,
         Store PORTB port3, Delay_ms 750, Store PORTB port4,
         Store TCCR0A a1, Store TCCR0A a2, Store TCCR0A a3, Store TCCR0A a4,
         Store TCCR0B b1, Store TCCR0B b2,
         Store OCR0A 50, Store OCR0B 50] \<and>
      bit ddr2 DDB0 \<and> bit ddr2 DDB1 \<and>
      bit port1 PB0 \<and> (\<not> bit port PB1 \<longrightarrow> \<not> bit port1 PB1) \<and>
      \<not> bit port2 PB0 \<and> (\<not> bit port PB1 \<longrightarrow> \<not> bit port2 PB1) \<and>
      \<not> bit port3 PB0 \<and> bit port3 PB1 \<and>
      \<not> bit port4 PB0 \<and> \<not> bit port4 PB1 \<and>
      io (startup m) = (io m)(DDRB := ddr2, PORTB := port4, TCCR0A := a4, TCCR0B := b2,
                             OCR0A := 50, OCR0B := 50) \<and>
      randreg (startup m) = randreg m"
  unfolding Let_def
  apply (intro conjI)
  subgoal by (simp add: startup_def store_def set_bits_def clear_bits_def delay_ms_def
      LAMP_0_ON_def LAMP_0_OFF_def LAMP_1_ON_def LAMP_1_OFF_def LAMP_MIN_PWM_def)
  subgoal by (simp add: BV_def DDB0_def DDB1_def bit_simps)
  subgoal by (simp add: BV_def DDB0_def DDB1_def bit_simps)
  subgoal by (simp add: BV_def PB0_def PB1_def bit_simps)
  subgoal by (simp add: BV_def PB0_def PB1_def bit_simps)
  subgoal by (simp add: BV_def PB0_def PB1_def bit_simps)
  subgoal by (simp add: BV_def PB0_def PB1_def bit_simps)
  subgoal by (simp add: BV_def PB0_def PB1_def bit_simps)
  subgoal by (simp add: BV_def PB0_def PB1_def bit_simps)
  subgoal by (simp add: BV_def PB0_def PB1_def bit_simps)
  subgoal by (simp add: BV_def PB0_def PB1_def bit_simps)
  subgoal by (simp add: startup_def store_def set_bits_def clear_bits_def delay_ms_def
      LAMP_0_ON_def LAMP_0_OFF_def LAMP_1_ON_def LAMP_1_OFF_def LAMP_MIN_PWM_def fun_eq_iff)
  subgoal by (rule startup_randreg)
  done

text \<open>
  From power-on, where every I/O register holds 0, the events of the startup are
  these.
\<close>

theorem startup_sequence_witness:
  "\<not> bit (io power_on PORTB) PB1 \<and>
   trace (startup power_on) =
     [Delay_ms 100,
      Store DDRB 1, Store DDRB 3,
      Store PORTB 1, Delay_ms 750, Store PORTB 0,
      Store PORTB 2, Delay_ms 750, Store PORTB 0,
      Store TCCR0A 0x80, Store TCCR0A 0xA0, Store TCCR0A 0xA1, Store TCCR0A 0xA3,
      Store TCCR0B 1, Store TCCR0B 5,
      Store OCR0A 50, Store OCR0B 50]"
  using startup_sequence[of power_on]
  by (simp add: Let_def power_on_def BV_def PB0_def PB1_def DDB0_def DDB1_def
      COM0A1_def COM0B1_def WGM00_def WGM01_def CS00_def CS02_def)

section \<open>The life of the generator's state\<close>

text \<open>
  C4, as the claim states it, fails: \<open>randreg\<close> has no initialiser, so the value it
  holds when \<open>main\<close> is entered is 0 and not a non-zero default.
\<close>

theorem randreg_initial_counterexample: "\<not> (randreg power_on \<noteq> 0)"
  by (simp add: power_on_def)

text \<open>
  C4, amended: the state holds 0 when \<open>main\<close> is entered; the startup sequence
  does not write it; the first draw after startup meets the zero guard and stores 2;
  after \<open>n\<close> passes through the loop the state is the one that \<open>3 * n\<close> draws
  from 0 produce, so it changes through draws only; and after one pass or more it is
  never again 0, the value it started with.
\<close>

theorem randreg_lifecycle:
  "randreg power_on = 0 \<and>
   randreg (startup m) = randreg m \<and>
   pseudorandom16 (startup power_on) = (2, (startup power_on)\<lparr>randreg := 2\<rparr>) \<and>
   (\<forall>n. \<exists>m'. main n = Some m' \<and> randreg m' = randreg (snd (draws (3 * n) power_on))) \<and>
   (\<forall>n. \<exists>m'. main (Suc n) = Some m' \<and> randreg m' \<noteq> 0)"
proof -
  have z: "randreg power_on = 0" by (simp add: power_on_def)
  have s: "randreg (startup power_on) = 0" by (simp add: startup_randreg z)
  then have p: "pseudorandom16 (startup power_on) = (2, (startup power_on)\<lparr>randreg := 2\<rparr>)"
    by (simp add: pseudorandom16_def newbit_of_def)
  have a: "\<exists>m'. main n = Some m' \<and> randreg m' = randreg (snd (draws (3 * n) power_on))" for n
  proof -
    obtain m' where m': "main_loop n (startup power_on) = Some m'"
      "randreg m' = randreg (snd (draws (3 * n) (startup power_on)))"
      using main_loop_draws by blast
    have "randreg (snd (draws (3 * n) (startup power_on))) = randreg (snd (draws (3 * n) power_on))"
      using draws_randreg[of "startup power_on" power_on] by (simp add: startup_randreg)
    with m' show ?thesis by (simp add: main_def)
  qed
  have b: "\<exists>m'. main (Suc n) = Some m' \<and> randreg m' \<noteq> 0" for n
  proof -
    obtain m' where m': "main (Suc n) = Some m'"
      "randreg m' = randreg (snd (draws (3 * Suc n) power_on))"
      using a by blast
    have "3 * Suc n = Suc (3 * n + 2)" by simp
    then have "randreg (snd (draws (3 * Suc n) power_on)) \<noteq> 0"
      using draws_nonzero[of "3 * n + 2" power_on] by (simp only:) simp
    with m' show ?thesis by simp
  qed
  from z p a b show ?thesis by (simp add: startup_randreg)
qed

end
